theory Spec2Isabelle
  imports Complex_Main "HOL-Library.AList" "HOL-Library.Word"
begin

unbundle bit_operations_syntax

section \<open>DynamicKey: keystroke events and timing features\<close>

text \<open>
  A shallow embedding of the timing core of \<^verbatim>\<open>cli.py\<close>. Python floats are read as
  real numbers (timestamps come from \<^verbatim>\<open>time.perf_counter\<close>, so they are finite and
  neither NaN nor infinite). The extractor only compares key identifiers, so an event
  carries its identifier as an opaque string.
  A \<^verbatim>\<open>dict\<close> is an association list in insertion order with at most one entry per
  key: \<^const>\<open>AList.update\<close> is \<^verbatim>\<open>d[k] = v\<close>, \<^const>\<open>AList.delete\<close> is
  \<^verbatim>\<open>del d[k]\<close>, \<^const>\<open>map_of\<close> is the lookup.
\<close>

subsection \<open>Data model\<close>

text \<open>The dataclass \<^verbatim>\<open>KeyEvent\<close>; \<open>event\<close> is the string \<^verbatim>\<open>'down'\<close> or \<^verbatim>\<open>'up'\<close>.\<close>

record KeyEvent =
  event :: string
  key_hash :: string
  timestamp :: real

abbreviation Down :: "string \<Rightarrow> real \<Rightarrow> KeyEvent" where
  "Down k t \<equiv> \<lparr>event = ''down'', key_hash = k, timestamp = t\<rparr>"

abbreviation Up :: "string \<Rightarrow> real \<Rightarrow> KeyEvent" where
  "Up k t \<equiv> \<lparr>event = ''up'', key_hash = k, timestamp = t\<rparr>"

text \<open>The dataclass \<^verbatim>\<open>RoundResult\<close>.\<close>

record RoundResult =
  round_index :: int
  phrase :: string
  start_time :: real
  end_time :: real
  duration :: real
  inter_key_intervals :: "real list"
  key_hold_times :: "(string \<times> real list) list"

subsection \<open>The feature extractor\<close>

text \<open>
  The local variables of \<^verbatim>\<open>compute_round_features\<close>. The fields \<open>holds\<close> and
  \<open>intervals\<close> are the locals \<^verbatim>\<open>key_hold_times\<close> and \<^verbatim>\<open>inter_key_intervals\<close>
  (their own names are taken by the fields of \<^typ>\<open>RoundResult\<close>);
  \<open>last_down_ts\<close> is \<open>None\<close> for Python's \<^verbatim>\<open>None\<close>.
\<close>

record features_state =
  holds :: "(string \<times> real list) list"
  intervals :: "real list"
  last_down_ts :: "real option"
  down_map :: "(string \<times> real) list"

text \<open>
  \<^verbatim>\<open>d[k].append(v)\<close> on a \<^verbatim>\<open>defaultdict(list)\<close>: a missing key is first bound to
  the empty list, at the end of the dictionary.
\<close>

definition defaultdict_append ::
  "string \<Rightarrow> real \<Rightarrow> (string \<times> real list) list \<Rightarrow> (string \<times> real list) list" where
  "defaultdict_append k v d = map_default k ([] @ [v]) (\<lambda>vs. vs @ [v]) d"

definition features_init :: features_state where
  "features_init = \<lparr>holds = [], intervals = [], last_down_ts = None, down_map = []\<rparr>"

text \<open>One iteration of the loop \<^verbatim>\<open>for ev in events\<close>.\<close>

definition features_step :: "KeyEvent \<Rightarrow> features_state \<Rightarrow> features_state" where
  "features_step ev s =
     (if event ev = ''down'' then
        s\<lparr>intervals :=
             (case last_down_ts s of
                None \<Rightarrow> intervals s
              | Some l \<Rightarrow> intervals s @ [timestamp ev - l]),
          last_down_ts := Some (timestamp ev),
          down_map := AList.update (key_hash ev) (timestamp ev) (down_map s)\<rparr>
      else if event ev = ''up'' then
        (case map_of (down_map s) (key_hash ev) of
           None \<Rightarrow> s
         | Some d \<Rightarrow>
             (let hold = timestamp ev - d in
              s\<lparr>holds :=
                   (if hold \<ge> 0 then defaultdict_append (key_hash ev) hold (holds s)
                    else holds s),
                down_map := AList.delete (key_hash ev) (down_map s)\<rparr>))
      else s)"

abbreviation is_down :: "KeyEvent \<Rightarrow> bool" where
  "is_down ev \<equiv> event ev = ''down''"

definition features_loop :: "KeyEvent list \<Rightarrow> features_state \<Rightarrow> features_state" where
  "features_loop evs s = fold features_step evs s"

definition compute_round_features ::
  "KeyEvent list \<Rightarrow> real list \<times> (string \<times> real list) list" where
  "compute_round_features evs =
     (let s = features_loop evs features_init in (intervals s, holds s))"

text \<open>
  The body of one round in \<^verbatim>\<open>main\<close>, from the two clock readings to the
  \<^verbatim>\<open>RoundResult\<close>: \<open>start_t\<close> and \<open>end_t\<close> are the readings of
  \<^verbatim>\<open>time.perf_counter()\<close> before and after the subject types the phrase.
\<close>

definition main_round ::
  "int \<Rightarrow> string \<Rightarrow> real \<Rightarrow> real \<Rightarrow> KeyEvent list \<Rightarrow> RoundResult" where
  "main_round round_idx phr start_t end_t round_events =
     (let dur = end_t - start_t;
          (iki, kht) = compute_round_features round_events
      in \<lparr>round_index = round_idx, phrase = phr, start_time = start_t, end_time = end_t,
          duration = dur, inter_key_intervals = iki, key_hold_times = kht\<rparr>)"

subsection \<open>Summary statistics\<close>

text \<open>
  The functions \<^verbatim>\<open>mean\<close> and \<^verbatim>\<open>pstdev\<close> of Python's \<^verbatim>\<open>statistics\<close> module and
  the builtins \<^verbatim>\<open>min\<close> and \<^verbatim>\<open>max\<close>, by their documentation, over the reals:
  each raises on an empty sequence. The type \<open>error\<close> lists the exceptions the modelled
  code can raise.
\<close>

datatype error = StatisticsError | ValueError | UnicodeEncodeError

definition py_mean :: "real list \<Rightarrow> error + real" where
  "py_mean xs =
     (if xs = [] then Inl StatisticsError else Inr (sum_list xs / real (length xs)))"

definition py_pstdev :: "real list \<Rightarrow> error + real" where
  "py_pstdev xs =
     (if xs = [] then Inl StatisticsError
      else (let mu = sum_list xs / real (length xs)
            in Inr (sqrt (sum_list (map (\<lambda>x. (x - mu)\<^sup>2) xs) / real (length xs)))))"

definition py_min :: "real list \<Rightarrow> error + real" where
  "py_min xs = (case xs of [] \<Rightarrow> Inl ValueError | x # ys \<Rightarrow> Inr (fold min ys x))"

definition py_max :: "real list \<Rightarrow> error + real" where
  "py_max xs = (case xs of [] \<Rightarrow> Inl ValueError | x # ys \<Rightarrow> Inr (fold max ys x))"

text \<open>
  A \<^verbatim>\<open>StatSummary\<close> is the dictionary \<^verbatim>\<open>summarize_list\<close> returns: its keys in
  the order of the literal, \<^verbatim>\<open>count\<close> an integer and the other values floats.
\<close>

datatype json_number = JInt int | JFloat real

type_synonym StatSummary = "(string \<times> json_number) list"

definition summarize_list :: "real list \<Rightarrow> error + StatSummary" where
  "summarize_list lst =
     (if lst = [] then Inr [(''count'', JInt 0)]
      else
        (case py_mean lst of Inl e \<Rightarrow> Inl e | Inr m \<Rightarrow>
        (case (if length lst > 1 then py_pstdev lst else Inr 0) of Inl e \<Rightarrow> Inl e | Inr sd \<Rightarrow>
        (case py_min lst of Inl e \<Rightarrow> Inl e | Inr lo \<Rightarrow>
        (case py_max lst of Inl e \<Rightarrow> Inl e | Inr hi \<Rightarrow>
           Inr [(''count'', JInt (int (length lst))), (''mean'', JFloat m),
                (''stdev'', JFloat sd), (''min'', JFloat lo), (''max'', JFloat hi)])))))"

subsection \<open>The session report\<close>

text \<open>
  The value of \<^verbatim>\<open>out["aggregate"]\<close>; its two keys are \<^verbatim>\<open>inter_key_intervals\<close> and
  \<^verbatim>\<open>key_hold_times\<close>, prefixed here to keep them apart from the fields of a round.
\<close>

record SessionAggregate =
  agg_inter_key_intervals :: StatSummary
  agg_key_hold_times :: "(string \<times> StatSummary) list"

text \<open>The dictionary \<^verbatim>\<open>out\<close>; \<^verbatim>\<open>asdict(r)\<close> is the round itself, field by field.\<close>

record 'm report =
  metadata :: 'm
  rounds :: "RoundResult list"
  aggregate :: SessionAggregate

text \<open>\<^verbatim>\<open>d[k].extend(vs)\<close> on a \<^verbatim>\<open>defaultdict(list)\<close>.\<close>

definition defaultdict_extend ::
  "string \<Rightarrow> real list \<Rightarrow> (string \<times> real list) list \<Rightarrow> (string \<times> real list) list" where
  "defaultdict_extend k vs d = map_default k ([] @ vs) (\<lambda>xs. xs @ vs) d"

text \<open>The locals \<^verbatim>\<open>out["rounds"]\<close>, \<^verbatim>\<open>all_intervals\<close> and \<^verbatim>\<open>aggregate_key_holds\<close>.\<close>

record report_state =
  out_rounds :: "RoundResult list"
  all_intervals :: "real list"
  aggregate_key_holds :: "(string \<times> real list) list"

text \<open>One iteration of \<^verbatim>\<open>for r in all_rounds\<close>, with its inner loop over the items.\<close>

definition report_step :: "RoundResult \<Rightarrow> report_state \<Rightarrow> report_state" where
  "report_step r s =
     \<lparr>out_rounds = out_rounds s @ [r],
      all_intervals = all_intervals s @ inter_key_intervals r,
      aggregate_key_holds =
        fold (\<lambda>(k, hs) d. defaultdict_extend k hs d) (key_hold_times r)
          (aggregate_key_holds s)\<rparr>"

text \<open>
  The comprehension \<^verbatim>\<open>{k: summarize_list(v) for k, v in d.items()}\<close>: the new
  dictionary \<open>acc\<close> is filled item by item.
\<close>

fun summarize_items ::
  "(string \<times> real list) list \<Rightarrow> (string \<times> StatSummary) list \<Rightarrow>
   error + (string \<times> StatSummary) list" where
  "summarize_items [] acc = Inr acc"
| "summarize_items ((k, v) # kvs) acc =
     (case summarize_list v of
        Inl e \<Rightarrow> Inl e
      | Inr sm \<Rightarrow> summarize_items kvs (AList.update k sm acc))"

definition make_json_report :: "RoundResult list \<Rightarrow> 'm \<Rightarrow> error + 'm report" where
  "make_json_report all_rounds md =
     (let s = fold report_step all_rounds
                \<lparr>out_rounds = [], all_intervals = [], aggregate_key_holds = []\<rparr>
      in
        (case summarize_list (all_intervals s) of Inl e \<Rightarrow> Inl e | Inr ik \<Rightarrow>
        (case summarize_items (aggregate_key_holds s) [] of Inl e \<Rightarrow> Inl e | Inr kh \<Rightarrow>
           Inr \<lparr>metadata = md, rounds = out_rounds s,
                aggregate = \<lparr>agg_inter_key_intervals = ik, agg_key_hold_times = kh\<rparr>\<rparr>)))"

subsection \<open>SHA-256\<close>

text \<open>
  \<^verbatim>\<open>hashlib.sha256\<close> belongs to Python's standard library; it is given here by the
  standard it implements (FIPS 180-4), on lists of bytes and 32-bit words.
\<close>

type_synonym byte = "8 word"
type_synonym word32 = "32 word"

definition Ch :: "word32 \<Rightarrow> word32 \<Rightarrow> word32 \<Rightarrow> word32" where
  "Ch x y z = (x AND y) XOR (NOT x AND z)"

definition Maj :: "word32 \<Rightarrow> word32 \<Rightarrow> word32 \<Rightarrow> word32" where
  "Maj x y z = (x AND y) XOR (x AND z) XOR (y AND z)"

definition bsig0 :: "word32 \<Rightarrow> word32" where
  "bsig0 x = word_rotr 2 x XOR word_rotr 13 x XOR word_rotr 22 x"

definition bsig1 :: "word32 \<Rightarrow> word32" where
  "bsig1 x = word_rotr 6 x XOR word_rotr 11 x XOR word_rotr 25 x"

definition ssig0 :: "word32 \<Rightarrow> word32" where
  "ssig0 x = word_rotr 7 x XOR word_rotr 18 x XOR drop_bit 3 x"

definition ssig1 :: "word32 \<Rightarrow> word32" where
  "ssig1 x = word_rotr 17 x XOR word_rotr 19 x XOR drop_bit 10 x"

definition sha256_K :: "word32 list" where
  "sha256_K =
     [0x428A2F98, 0x71374491, 0xB5C0FBCF, 0xE9B5DBA5, 0x3956C25B, 0x59F111F1, 0x923F82A4,
      0xAB1C5ED5, 0xD807AA98, 0x12835B01, 0x243185BE, 0x550C7DC3, 0x72BE5D74, 0x80DEB1FE,
      0x9BDC06A7, 0xC19BF174, 0xE49B69C1, 0xEFBE4786, 0x0FC19DC6, 0x240CA1CC, 0x2DE92C6F,
      0x4A7484AA, 0x5CB0A9DC, 0x76F988DA, 0x983E5152, 0xA831C66D, 0xB00327C8, 0xBF597FC7,
      0xC6E00BF3, 0xD5A79147, 0x06CA6351, 0x14292967, 0x27B70A85, 0x2E1B2138, 0x4D2C6DFC,
      0x53380D13, 0x650A7354, 0x766A0ABB, 0x81C2C92E, 0x92722C85, 0xA2BFE8A1, 0xA81A664B,
      0xC24B8B70, 0xC76C51A3, 0xD192E819, 0xD6990624, 0xF40E3585, 0x106AA070, 0x19A4C116,
      0x1E376C08, 0x2748774C, 0x34B0BCB5, 0x391C0CB3, 0x4ED8AA4A, 0x5B9CCA4F, 0x682E6FF3,
      0x748F82EE, 0x78A5636F, 0x84C87814, 0x8CC70208, 0x90BEFFFA, 0xA4506CEB, 0xBEF9A3F7,
      0xC67178F2]"

definition sha256_H0 :: "word32 list" where
  "sha256_H0 =
     [0x6A09E667, 0xBB67AE85, 0x3C6EF372, 0xA54FF53A, 0x510E527F, 0x9B05688C, 0x1F83D9AB,
      0x5BE0CD19]"

text \<open>Padding: the byte \<open>0x80\<close>, zero bytes up to 56 modulo 64, the bit length in 8 bytes.\<close>

definition be_bytes64 :: "64 word \<Rightarrow> byte list" where
  "be_bytes64 n = map (\<lambda>i. ucast (drop_bit (8 * i) n)) [7, 6, 5, 4, 3, 2, 1, 0]"

definition sha256_pad :: "byte list \<Rightarrow> byte list" where
  "sha256_pad m =
     m @ [0x80] @ replicate ((119 - length m mod 64) mod 64) 0
       @ be_bytes64 (word_of_nat (8 * length m))"

fun be_words32 :: "byte list \<Rightarrow> word32 list" where
  "be_words32 (a # b # c # d # bs) =
     (push_bit 24 (ucast a) OR push_bit 16 (ucast b) OR push_bit 8 (ucast c) OR ucast d)
       # be_words32 bs"
| "be_words32 _ = []"

text \<open>The message schedule: 16 words of the block, extended to 64.\<close>

fun sha256_schedule :: "nat \<Rightarrow> word32 list \<Rightarrow> word32 list" where
  "sha256_schedule 0 w = w"
| "sha256_schedule (Suc n) w =
     (let t = length w
      in sha256_schedule n
           (w @ [ssig1 (w ! (t - 2)) + w ! (t - 7) + ssig0 (w ! (t - 15)) + w ! (t - 16)]))"

fun sha256_round :: "word32 \<times> word32 \<Rightarrow> word32 list \<Rightarrow> word32 list" where
  "sha256_round (k, w) [a, b, c, d, e, f, g, h] =
     (let t1 = h + bsig1 e + Ch e f g + k + w;
          t2 = bsig0 a + Maj a b c
      in [t1 + t2, a, b, c, d + t1, e, f, g])"
| "sha256_round _ v = v"

definition sha256_compress :: "word32 list \<Rightarrow> byte list \<Rightarrow> word32 list" where
  "sha256_compress hs block =
     map2 (+) hs
       (fold sha256_round (zip sha256_K (sha256_schedule 48 (be_words32 block))) hs)"

fun sha256_blocks :: "nat \<Rightarrow> word32 list \<Rightarrow> byte list \<Rightarrow> word32 list" where
  "sha256_blocks 0 hs bs = hs"
| "sha256_blocks (Suc n) hs bs = sha256_blocks n (sha256_compress hs (take 64 bs)) (drop 64 bs)"

definition sha256 :: "byte list \<Rightarrow> word32 list" where
  "sha256 m = (let p = sha256_pad m in sha256_blocks (length p div 64) sha256_H0 p)"

text \<open>\<^verbatim>\<open>hexdigest\<close>: eight lower-case hexadecimal digits for each word of the digest.\<close>

definition hex_digit :: "nat \<Rightarrow> char" where
  "hex_digit n = ''0123456789abcdef'' ! (n mod 16)"

definition hex_word32 :: "word32 \<Rightarrow> string" where
  "hex_word32 w =
     map (\<lambda>i. hex_digit (unat (take_bit 4 (drop_bit (4 * i) w)))) [7, 6, 5, 4, 3, 2, 1, 0]"

definition sha256_hexdigest :: "byte list \<Rightarrow> string" where
  "sha256_hexdigest m = concat (map hex_word32 (sha256 m))"

subsection \<open>Python strings and their UTF-8 encoding\<close>

text \<open>
  A Python \<^verbatim>\<open>str\<close> is a sequence of code points, each stored in at most four bytes
  (the values a \<^verbatim>\<open>str\<close> can hold are those below \<open>0x110000\<close>); \<open>py_str\<close> reads
  an ASCII literal as one. \<^verbatim>\<open>s.encode("utf-8")\<close>, by the documentation of the codec:
  one to four bytes for each code point, and \<^verbatim>\<open>UnicodeEncodeError\<close> when the string
  holds a surrogate code point (\<open>U+D800\<close> to \<open>U+DFFF\<close>).
\<close>

type_synonym codepoint = "32 word"
type_synonym pystr = "codepoint list"

definition py_str :: "string \<Rightarrow> pystr" where
  "py_str s = map of_char s"

definition is_surrogate :: "codepoint \<Rightarrow> bool" where
  "is_surrogate c = (0xD800 \<le> c \<and> c \<le> 0xDFFF)"

definition utf8_char :: "codepoint \<Rightarrow> byte list" where
  "utf8_char c =
     (if c < 0x80 then [ucast c]
      else if c < 0x800 then
        [0xC0 OR ucast (drop_bit 6 c), 0x80 OR ucast (c AND 0x3F)]
      else if c < 0x10000 then
        [0xE0 OR ucast (drop_bit 12 c), 0x80 OR ucast (drop_bit 6 c AND 0x3F),
         0x80 OR ucast (c AND 0x3F)]
      else
        [0xF0 OR ucast (drop_bit 18 c), 0x80 OR ucast (drop_bit 12 c AND 0x3F),
         0x80 OR ucast (drop_bit 6 c AND 0x3F), 0x80 OR ucast (c AND 0x3F)])"

definition utf8_encode :: "pystr \<Rightarrow> error + byte list" where
  "utf8_encode s =
     (if list_ex is_surrogate s then Inl UnicodeEncodeError
      else Inr (concat (map utf8_char s)))"

subsection \<open>The key anonymizer\<close>

text \<open>
  The fields of \<^verbatim>\<open>KeystrokeCapture\<close> (\<open>down_timestamps\<close> is \<^verbatim>\<open>_down_timestamps\<close>)
  and its method \<^verbatim>\<open>_hash_key\<close>, which returns the label itself or the digest as a
  \<^verbatim>\<open>str\<close>, or raises what \<^verbatim>\<open>encode\<close> raises. The recorded events keep their
  identifiers as the opaque strings of the extractor.
\<close>

record KeystrokeCapture =
  salt :: pystr
  anonymize :: bool
  events :: "KeyEvent list"
  down_timestamps :: "(string \<times> real) list"

text \<open>
  \<^verbatim>\<open>__init__\<close>; \<open>uuid_hex\<close> is the value of \<^verbatim>\<open>uuid.uuid4().hex\<close>, 32 hexadecimal
  digits drawn at random.
\<close>

definition init_capture :: "pystr \<Rightarrow> bool \<Rightarrow> KeystrokeCapture" where
  "init_capture uuid_hex anon =
     \<lparr>salt = (if anon then uuid_hex else py_str []), anonymize = anon, events = [],
      down_timestamps = []\<rparr>"

definition hash_key :: "KeystrokeCapture \<Rightarrow> pystr \<Rightarrow> error + pystr" where
  "hash_key self key_name =
     (if \<not> anonymize self then Inr key_name
      else
        (case utf8_encode (salt self @ py_str ''::'' @ key_name) of
           Inl e \<Rightarrow> Inl e
         | Inr b \<Rightarrow> Inr (py_str (sha256_hexdigest b))))"

subsection \<open>The clock\<close>

text \<open>
  \<^verbatim>\<open>time.perf_counter\<close> belongs to Python's standard library, which documents it as a
  monotonic clock: it is given here as a counter of nanosecond ticks that only advances,
  read in seconds. \<open>elapse n\<close> is the passing of \<open>n\<close> ticks, as while \<^verbatim>\<open>input()\<close>
  waits.
\<close>

record clock =
  ticks :: nat

definition perf_counter :: "clock \<Rightarrow> real" where
  "perf_counter c = real (ticks c) / 1000000000"

definition elapse :: "nat \<Rightarrow> clock \<Rightarrow> clock" where
  "elapse n c = c\<lparr>ticks := ticks c + n\<rparr>"

text \<open>
  One round of \<^verbatim>\<open>main\<close> with its two readings of the clock: the first before
  \<^verbatim>\<open>input()\<close>, the second after it has waited for \<open>n\<close> ticks. The result is the
  round and the clock after it.
\<close>

definition main_round_timed ::
  "int \<Rightarrow> string \<Rightarrow> nat \<Rightarrow> KeyEvent list \<Rightarrow> clock \<Rightarrow> RoundResult \<times> clock" where
  "main_round_timed round_idx phr n round_events c =
     (let start_t = perf_counter c;
          c' = elapse n c;
          end_t = perf_counter c'
      in (main_round round_idx phr start_t end_t round_events, c'))"

subsection \<open>Notions used in the statements\<close>

text \<open>The locals of \<^verbatim>\<open>make_json_report\<close> before its loop.\<close>

abbreviation report_init :: report_state where
  "report_init \<equiv> \<lparr>out_rounds = [], all_intervals = [], aggregate_key_holds = []\<rparr>"

text \<open>
  The hold times one round has for the key \<open>k\<close>: the value of \<open>k\<close> in the round's
  \<^verbatim>\<open>key_hold_times\<close>, and no hold time when the key is absent.
\<close>

definition key_holds :: "string \<Rightarrow> RoundResult \<Rightarrow> real list" where
  "key_holds k r = concat (map snd (filter (\<lambda>(k', hs). k' = k) (key_hold_times r)))"

text \<open>The invariant of the hold-time dictionary: no empty list, no negative value.\<close>

definition holds_ok :: "(string \<times> real list) list \<Rightarrow> bool" where
  "holds_ok d = (\<forall>(k, hs) \<in> set d. hs \<noteq> [] \<and> (\<forall>h \<in> set hs. 0 \<le> h))"

section \<open>Properties of the feature extractor\<close>

lemmas features_eval =
  compute_round_features_def features_loop_def features_step_def features_init_def
  defaultdict_append_def AList.delete_eq

lemma features_loop_Nil: "features_loop [] s = s"
  by (simp add: features_loop_def)

lemma features_loop_Cons: "features_loop (ev # evs) s = features_loop evs (features_step ev s)"
  by (simp add: features_loop_def)

lemma features_loop_append: "features_loop (xs @ ys) s = features_loop ys (features_loop xs s)"
  by (simp add: features_loop_def)

subsection \<open>What one event does to each local variable\<close>

lemma holds_step_cases:
  "holds (features_step ev s) = holds s \<or>
   (\<exists>d. map_of (down_map s) (key_hash ev) = Some d \<and> 0 \<le> timestamp ev - d \<and>
        holds (features_step ev s) =
          defaultdict_append (key_hash ev) (timestamp ev - d) (holds s))"
  by (simp add: features_step_def Let_def split: option.splits)

lemma intervals_step_down:
  "is_down ev \<Longrightarrow>
     intervals (features_step ev s) =
       (case last_down_ts s of None \<Rightarrow> intervals s | Some l \<Rightarrow> intervals s @ [timestamp ev - l])
     \<and> last_down_ts (features_step ev s) = Some (timestamp ev)"
  by (simp add: features_step_def)

lemma intervals_step_other:
  "\<not> is_down ev \<Longrightarrow>
     intervals (features_step ev s) = intervals s \<and>
     last_down_ts (features_step ev s) = last_down_ts s"
  by (simp add: features_step_def Let_def split: option.splits)

lemma defaultdict_append_entries:
  "(k', vs') \<in> set (defaultdict_append k v d) \<Longrightarrow>
     (k', vs') \<in> set d \<or> (\<exists>old. vs' = old @ [v] \<and> (old = [] \<or> (k', old) \<in> set d))"
  unfolding defaultdict_append_def
  by (induction d) (auto split: if_splits)

subsection \<open>Hold times: every list is non-empty and holds no negative value\<close>

lemma holds_ok_step: "holds_ok (holds s) \<Longrightarrow> holds_ok (holds (features_step ev s))"
  using holds_step_cases [of ev s]
  by (fastforce simp: holds_ok_def dest!: defaultdict_append_entries)

lemma holds_ok_loop: "holds_ok (holds s) \<Longrightarrow> holds_ok (holds (features_loop evs s))"
  by (induction evs arbitrary: s)
    (simp_all add: features_loop_Nil features_loop_Cons holds_ok_step)

lemma holds_ok_result: "holds_ok (snd (compute_round_features evs))"
  using holds_ok_loop [of features_init evs]
  by (simp add: compute_round_features_def Let_def features_init_def holds_ok_def)

subsection \<open>Intervals: sign and number\<close>

lemma intervals_nonneg_loop:
  "\<lbrakk>\<forall>d \<in> set (intervals s). 0 \<le> d;
    sorted (map timestamp (filter is_down evs));
    \<forall>l. last_down_ts s = Some l \<longrightarrow> (\<forall>e \<in> set evs. is_down e \<longrightarrow> l \<le> timestamp e)\<rbrakk>
   \<Longrightarrow> \<forall>d \<in> set (intervals (features_loop evs s)). 0 \<le> d"
proof (induction evs arbitrary: s)
  case Nil
  then show ?case by (simp add: features_loop_Nil)
next
  case (Cons ev evs)
  show ?case
  proof (cases "is_down ev")
    case True
    note st = intervals_step_down [OF True, of s]
    have a: "\<forall>d \<in> set (intervals (features_step ev s)). 0 \<le> d"
      using Cons.prems(1,3) True st by (auto split: option.splits)
    have b: "sorted (map timestamp (filter is_down evs))"
      using Cons.prems(2) True by simp
    have c: "\<forall>l. last_down_ts (features_step ev s) = Some l \<longrightarrow>
                (\<forall>e \<in> set evs. is_down e \<longrightarrow> l \<le> timestamp e)"
      using Cons.prems(2) True st by auto
    show ?thesis
      using Cons.IH [OF a b c] by (simp add: features_loop_Cons)
  next
    case False
    note st = intervals_step_other [OF False, of s]
    have a: "\<forall>d \<in> set (intervals (features_step ev s)). 0 \<le> d"
      using Cons.prems(1) st by simp
    have b: "sorted (map timestamp (filter is_down evs))"
      using Cons.prems(2) False by simp
    have c: "\<forall>l. last_down_ts (features_step ev s) = Some l \<longrightarrow>
                (\<forall>e \<in> set evs. is_down e \<longrightarrow> l \<le> timestamp e)"
      using Cons.prems(3) st by simp
    show ?thesis
      using Cons.IH [OF a b c] by (simp add: features_loop_Cons)
  qed
qed

lemma intervals_length_loop:
  "length (intervals (features_loop evs s)) =
     (let n = length (filter is_down evs)
      in if last_down_ts s = None \<and> n \<ge> 1 then length (intervals s) + n - 1
         else length (intervals s) + n)
   \<and> (last_down_ts (features_loop evs s) = None \<longleftrightarrow>
        last_down_ts s = None \<and> filter is_down evs = [])"
proof (induction evs arbitrary: s)
  case Nil
  then show ?case by (simp add: features_loop_Nil)
next
  case (Cons ev evs)
  show ?case
  proof (cases "is_down ev")
    case True
    show ?thesis
      using Cons.IH [of "features_step ev s"] intervals_step_down [OF True, of s] True
      by (auto simp: features_loop_Cons Let_def split: option.splits)
  next
    case False
    show ?thesis
      using Cons.IH [of "features_step ev s"] intervals_step_other [OF False, of s] False
      by (simp add: features_loop_Cons Let_def)
  qed
qed

lemma intervals_only_downs:
  "\<lbrakk>\<forall>e. is_down e \<longrightarrow> P e; intervals s' = intervals s; last_down_ts s' = last_down_ts s\<rbrakk> \<Longrightarrow>
     intervals (features_loop (filter P evs) s') = intervals (features_loop evs s) \<and>
     last_down_ts (features_loop (filter P evs) s') = last_down_ts (features_loop evs s)"
proof (induction evs arbitrary: s s')
  case Nil
  then show ?case by (simp add: features_loop_Nil)
next
  case (Cons ev evs)
  have step: "intervals (features_step ev s') = intervals (features_step ev s)"
             "last_down_ts (features_step ev s') = last_down_ts (features_step ev s)"
    using intervals_step_down [of ev] intervals_step_other [of ev] Cons.prems(2,3)
    by (cases "is_down ev"; simp split: option.splits)+
  show ?case
  proof (cases "P ev")
    case True
    from Cons.IH [OF Cons.prems(1) step] show ?thesis
      using True by (simp add: features_loop_Cons)
  next
    case False
    then have nd: "\<not> is_down ev"
      using Cons.prems(1) by blast
    have "intervals s' = intervals (features_step ev s)"
         "last_down_ts s' = last_down_ts (features_step ev s)"
      using intervals_step_other [OF nd] Cons.prems(2,3) by simp_all
    from Cons.IH [OF Cons.prems(1) this] show ?thesis
      using False by (simp add: features_loop_Cons)
  qed
qed

subsection \<open>Which keys are open, and which keys have holds\<close>

lemma orphan_step:
  "event ev = ''up'' \<Longrightarrow> map_of (down_map s) (key_hash ev) = None \<Longrightarrow> features_step ev s = s"
  by (simp add: features_step_def)

lemma down_map_keys_step:
  "map_of (down_map (features_step ev s)) k = Some d \<Longrightarrow>
     map_of (down_map s) k \<noteq> None \<or> (is_down ev \<and> key_hash ev = k)"
  by (auto simp: features_step_def Let_def update_conv' delete_conv'
           split: option.splits if_splits)

lemma down_map_keys_loop:
  "map_of (down_map (features_loop evs s)) k = Some d \<Longrightarrow>
     map_of (down_map s) k \<noteq> None \<or> (\<exists>e \<in> set evs. is_down e \<and> key_hash e = k)"
proof (induction evs arbitrary: s d)
  case Nil
  then show ?case by (simp add: features_loop_Nil)
next
  case (Cons ev evs)
  from Cons.prems have "map_of (down_map (features_loop evs (features_step ev s))) k = Some d"
    by (simp add: features_loop_Cons)
  from Cons.IH [OF this] show ?case
    using down_map_keys_step [of ev s k] by auto
qed

lemma holds_keys_step_subset:
  "fst ` set (holds (features_step ev s)) \<subseteq>
     fst ` set (holds s) \<union>
     (if event ev = ''up'' \<and>
         (\<exists>d. map_of (down_map s) (key_hash ev) = Some d \<and> 0 \<le> timestamp ev - d)
      then {key_hash ev} else {})"
  by (auto simp add: features_step_def Let_def defaultdict_append_def dom_map_default
      split: option.splits)

lemma holds_keys_loop:
  "k \<in> fst ` set (holds (features_loop evs s)) \<Longrightarrow>
     k \<in> fst ` set (holds s) \<or>
     (\<exists>pre ev post d. evs = pre @ ev # post \<and> event ev = ''up'' \<and> key_hash ev = k \<and>
        map_of (down_map (features_loop pre s)) k = Some d \<and> 0 \<le> timestamp ev - d)"
proof (induction evs arbitrary: s rule: rev_induct)
  case Nil
  then show ?case by (simp add: features_loop_Nil)
next
  case (snoc ev evs)
  let ?t = "features_loop evs s"
  have "k \<in> fst ` set (holds (features_step ev ?t))"
    using snoc.prems by (simp add: features_loop_append features_loop_Cons features_loop_Nil)
  with holds_keys_step_subset [of ev ?t]
  have mem: "k \<in> fst ` set (holds ?t) \<union>
     (if event ev = ''up'' \<and>
         (\<exists>d. map_of (down_map ?t) (key_hash ev) = Some d \<and> 0 \<le> timestamp ev - d)
      then {key_hash ev} else {})"
    by (rule subsetD)
  show ?case
  proof (cases "k \<in> fst ` set (holds ?t)")
    case True
    from snoc.IH [OF this] show ?thesis
    proof
      assume "k \<in> fst ` set (holds s)"
      then show ?thesis ..
    next
      assume "\<exists>pre e post d. evs = pre @ e # post \<and> event e = ''up'' \<and> key_hash e = k \<and>
        map_of (down_map (features_loop pre s)) k = Some d \<and> 0 \<le> timestamp e - d"
      then obtain pre e post d where "evs = pre @ e # post" "event e = ''up''" "key_hash e = k"
        "map_of (down_map (features_loop pre s)) k = Some d" "0 \<le> timestamp e - d"
        by blast
      then have "evs @ [ev] = pre @ e # (post @ [ev]) \<and> event e = ''up'' \<and> key_hash e = k \<and>
        map_of (down_map (features_loop pre s)) k = Some d \<and> 0 \<le> timestamp e - d"
        by simp
      then show ?thesis by blast
    qed
  next
    case False
    with mem obtain d where "event ev = ''up''" "key_hash ev = k"
      "map_of (down_map ?t) k = Some d" "0 \<le> timestamp ev - d"
      by (auto split: if_splits)
    then have "evs @ [ev] = evs @ ev # [] \<and> event ev = ''up'' \<and> key_hash ev = k \<and>
        map_of (down_map (features_loop evs s)) k = Some d \<and> 0 \<le> timestamp ev - d"
      by simp
    then show ?thesis by blast
  qed
qed

lemma distinct_holds_step:
  "distinct (map fst (holds s)) \<Longrightarrow> distinct (map fst (holds (features_step ev s)))"
  using holds_step_cases [of ev s] by (auto simp: defaultdict_append_def distinct_map_default)

lemma distinct_holds_loop:
  "distinct (map fst (holds s)) \<Longrightarrow> distinct (map fst (holds (features_loop evs s)))"
  by (induction evs arbitrary: s)
    (simp_all add: features_loop_Nil features_loop_Cons distinct_holds_step)

subsection \<open>The claims about the feature extractor\<close>

text \<open>
  C1, as amended. Every hold time the extractor returns is non-negative, for every event
  sequence; an \<^verbatim>\<open>up\<close> whose hold would be negative leaves the hold times as they
  are (it is dropped, nothing is stored in its place). Every inter-key interval is
  non-negative when the \<^verbatim>\<open>down\<close> events come with non-decreasing timestamps.
\<close>

theorem extracted_durations_nonneg:
  "(\<forall>(k, hs) \<in> set (snd (compute_round_features evs)). \<forall>h \<in> set hs. 0 \<le> h) \<and>
   (event ev = ''up'' \<and> map_of (down_map s) (key_hash ev) = Some d \<and> timestamp ev - d < 0
      \<longrightarrow> holds (features_step ev s) = holds s) \<and>
   (sorted (map timestamp (filter is_down evs))
      \<longrightarrow> (\<forall>i \<in> set (fst (compute_round_features evs)). 0 \<le> i))"
proof (intro conjI impI)
  show "\<forall>(k, hs) \<in> set (snd (compute_round_features evs)). \<forall>h \<in> set hs. 0 \<le> h"
    using holds_ok_result [of evs] by (auto simp: holds_ok_def)
next
  assume "event ev = ''up'' \<and> map_of (down_map s) (key_hash ev) = Some d \<and> timestamp ev - d < 0"
  then show "holds (features_step ev s) = holds s"
    by (simp add: features_step_def Let_def)
next
  assume "sorted (map timestamp (filter is_down evs))"
  then have "\<forall>i \<in> set (intervals (features_loop evs features_init)). 0 \<le> i"
    by (intro intervals_nonneg_loop) (simp_all add: features_init_def)
  then show "\<forall>i \<in> set (fst (compute_round_features evs)). 0 \<le> i"
    by (simp add: compute_round_features_def Let_def)
qed

theorem extracted_durations_nonneg_witness:
  "snd (compute_round_features [Down ''A'' 0, Down ''B'' 10, Up ''A'' 15, Up ''B'' 25]) =
     [(''A'', [15]), (''B'', [15])] \<and>
   (0 :: real) \<le> 15 \<and>
   event (Up ''A'' 3) = ''up'' \<and>
   map_of (down_map \<lparr>holds = [], intervals = [], last_down_ts = Some 5,
                      down_map = [(''A'', 5)]\<rparr>) (key_hash (Up ''A'' 3)) = Some 5 \<and>
   timestamp (Up ''A'' 3) - 5 < 0 \<and>
   holds (features_step (Up ''A'' 3)
            \<lparr>holds = [], intervals = [], last_down_ts = Some 5, down_map = [(''A'', 5)]\<rparr>)
     = [] \<and>
   sorted (map timestamp (filter is_down
        [Down ''A'' 0, Down ''B'' 10, Up ''A'' 15, Up ''B'' 25])) \<and>
   fst (compute_round_features [Down ''A'' 0, Down ''B'' 10, Up ''A'' 15, Up ''B'' 25]) = [10] \<and>
   (0 :: real) \<le> 10"
  using extracted_durations_nonneg
    [of "[Down ''A'' 0, Down ''B'' 10, Up ''A'' 15, Up ''B'' 25]" "Up ''A'' 3"
        "\<lparr>holds = [], intervals = [], last_down_ts = Some 5, down_map = [(''A'', 5)]\<rparr>" 5]
  by (simp add: features_eval)

text \<open>
  C1, as stated, fails: two \<^verbatim>\<open>down\<close> events with decreasing timestamps give the
  interval \<open>5 - 10\<close>.
\<close>

theorem intervals_nonneg_counterexample:
  "fst (compute_round_features [Down ''A'' 10, Down ''B'' 5]) = [- 5] \<and>
   \<not> (\<forall>i \<in> set (fst (compute_round_features [Down ''A'' 10, Down ''B'' 5])). 0 \<le> i)"
  by (simp add: features_eval)

text \<open>
  C2. On \<open>[Down(A,0), Down(A,5), Up(A,8)]\<close> the hold recorded for \<open>A\<close> is
  \<open>8 - 5 = 3\<close>: the second press replaces the first, which yields no hold of its own.
\<close>

theorem repress_later_press_wins:
  "snd (compute_round_features [Down ''A'' 0, Down ''A'' 5, Up ''A'' 8]) = [(''A'', [8 - 5])] \<and>
   compute_round_features [Down ''A'' 0, Down ''A'' 5, Up ''A'' 8] = ([5], [(''A'', [3])])"
  by (simp add: features_eval)

text \<open>
  C3. On \<open>[Down(A,0), Down(B,10), Up(A,15), Up(B,25)]\<close> the intervals are \<open>[10]\<close>
  and the hold times are \<open>{A: [15], B: [15]}\<close>.
\<close>

theorem two_key_scenario:
  "compute_round_features [Down ''A'' 0, Down ''B'' 10, Up ''A'' 15, Up ''B'' 25] =
     ([10], [(''A'', [15]), (''B'', [15])])"
  by (simp add: features_eval)

text \<open>
  C4. An \<^verbatim>\<open>up\<close> event whose key has no open press when it is reached changes
  nothing: the loop's variables stay as they are, and the features of the whole sequence
  are those of the sequence without the event. The extractor has no failing branch, so no
  error is raised. In particular \<open>[Up(C,5)]\<close> gives two empty outputs.
\<close>

theorem orphan_up_ignored:
  "(event ev = ''up'' \<and>
    map_of (down_map (features_loop pre features_init)) (key_hash ev) = None \<longrightarrow>
      features_loop (pre @ [ev]) features_init = features_loop pre features_init \<and>
      compute_round_features (pre @ ev # post) = compute_round_features (pre @ post)) \<and>
   compute_round_features [Up ''C'' 5] = ([], [])"
proof (intro conjI impI)
  assume a: "event ev = ''up'' \<and>
    map_of (down_map (features_loop pre features_init)) (key_hash ev) = None"
  then have st: "features_step ev (features_loop pre features_init) =
      features_loop pre features_init"
    by (simp add: orphan_step)
  then show "features_loop (pre @ [ev]) features_init = features_loop pre features_init"
    by (simp add: features_loop_append features_loop_Cons features_loop_Nil)
  show "compute_round_features (pre @ ev # post) = compute_round_features (pre @ post)"
    using st by (simp add: compute_round_features_def features_loop_append features_loop_Cons)
next
  show "compute_round_features [Up ''C'' 5] = ([], [])"
    by (simp add: features_eval)
qed

theorem orphan_up_ignored_witness:
  "event (Up ''C'' 5) = ''up'' \<and>
   map_of (down_map (features_loop [Down ''A'' 0] features_init)) (key_hash (Up ''C'' 5)) = None \<and>
   compute_round_features ([Down ''A'' 0] @ Up ''C'' 5 # [Up ''A'' 7]) =
     compute_round_features ([Down ''A'' 0] @ [Up ''A'' 7]) \<and>
   compute_round_features ([Down ''A'' 0] @ [Up ''A'' 7]) = ([], [(''A'', [7])])"
  using orphan_up_ignored [of "Up ''C'' 5" "[Down ''A'' 0]" "[Up ''A'' 7]"]
  by (simp add: features_eval)

text \<open>
  C9. The number of inter-key intervals is the number of \<^verbatim>\<open>down\<close> events minus one
  when there is at least one, and zero otherwise; the intervals are those of the
  \<^verbatim>\<open>down\<close> events alone, so no \<^verbatim>\<open>up\<close> event changes their number.
\<close>

theorem interval_count:
  "length (fst (compute_round_features evs)) =
     (let n = length (filter is_down evs) in if n \<ge> 1 then n - 1 else 0) \<and>
   fst (compute_round_features (filter (\<lambda>e. event e \<noteq> ''up'') evs)) =
     fst (compute_round_features evs)"
proof
  show "length (fst (compute_round_features evs)) =
     (let n = length (filter is_down evs) in if n \<ge> 1 then n - 1 else 0)"
    using intervals_length_loop [of evs features_init]
    by (auto simp: compute_round_features_def Let_def features_init_def Suc_le_eq)
next
  have "\<forall>e. is_down e \<longrightarrow> event e \<noteq> ''up''"
    by auto
  from intervals_only_downs [OF this, of features_init features_init evs]
  show "fst (compute_round_features (filter (\<lambda>e. event e \<noteq> ''up'') evs)) =
     fst (compute_round_features evs)"
    by (simp add: compute_round_features_def Let_def)
qed

theorem interval_count_witness:
  "length (fst (compute_round_features [Down ''A'' 0, Down ''B'' 10, Up ''A'' 15, Up ''B'' 25]))
     = 2 - 1 \<and>
   length (fst (compute_round_features [Up ''C'' 5])) = 0"
  using interval_count [of "[Down ''A'' 0, Down ''B'' 10, Up ''A'' 15, Up ''B'' 25]"]
    interval_count [of "[Up ''C'' 5]"]
  by simp

text \<open>
  C10. Every key of the returned hold-time mapping maps to a non-empty list. The mapping
  has one entry per key, and a key is present only if some \<^verbatim>\<open>up\<close> event of that key
  met an open press with a non-negative hold; any other key is absent.
\<close>

theorem hold_lists_nonempty:
  "(\<forall>(k, hs) \<in> set (snd (compute_round_features evs)). hs \<noteq> []) \<and>
   distinct (map fst (snd (compute_round_features evs))) \<and>
   (\<forall>k \<in> fst ` set (snd (compute_round_features evs)).
      \<exists>pre ev post d. evs = pre @ ev # post \<and> event ev = ''up'' \<and> key_hash ev = k \<and>
        map_of (down_map (features_loop pre features_init)) k = Some d \<and>
        0 \<le> timestamp ev - d)"
proof (intro conjI)
  show "\<forall>(k, hs) \<in> set (snd (compute_round_features evs)). hs \<noteq> []"
    using holds_ok_result [of evs] by (auto simp: holds_ok_def)
next
  show "distinct (map fst (snd (compute_round_features evs)))"
    using distinct_holds_loop [of features_init evs]
    by (simp add: compute_round_features_def Let_def features_init_def)
next
  show "\<forall>k \<in> fst ` set (snd (compute_round_features evs)).
      \<exists>pre ev post d. evs = pre @ ev # post \<and> event ev = ''up'' \<and> key_hash ev = k \<and>
        map_of (down_map (features_loop pre features_init)) k = Some d \<and>
        0 \<le> timestamp ev - d"
  proof
    fix k
    assume "k \<in> fst ` set (snd (compute_round_features evs))"
    then have "k \<in> fst ` set (holds (features_loop evs features_init))"
      by (simp add: compute_round_features_def Let_def)
    from holds_keys_loop [OF this]
    have "k \<in> fst ` set (holds features_init) \<or>
      (\<exists>pre ev post d. evs = pre @ ev # post \<and> event ev = ''up'' \<and> key_hash ev = k \<and>
        map_of (down_map (features_loop pre features_init)) k = Some d \<and>
        0 \<le> timestamp ev - d)" .
    moreover have "k \<notin> fst ` set (holds features_init)"
      by (simp add: features_init_def)
    ultimately show "\<exists>pre ev post d. evs = pre @ ev # post \<and> event ev = ''up'' \<and>
        key_hash ev = k \<and> map_of (down_map (features_loop pre features_init)) k = Some d \<and>
        0 \<le> timestamp ev - d"
      by blast
  qed
qed

theorem hold_lists_nonempty_witness:
  "snd (compute_round_features
        [Down ''A'' 0, Down ''B'' 10, Up ''A'' 15, Down ''C'' 20, Up ''C'' 18]) = [(''A'', [15])] \<and>
   [15 :: real] \<noteq> [] \<and>
   [Down ''A'' 0, Down ''B'' 10, Up ''A'' 15, Down ''C'' 20, Up ''C'' 18] =
     [Down ''A'' 0, Down ''B'' 10] @ Up ''A'' 15 # [Down ''C'' 20, Up ''C'' 18] \<and>
   map_of (down_map (features_loop [Down ''A'' 0, Down ''B'' 10] features_init)) ''A'' = Some 0"
  using hold_lists_nonempty
    [of "[Down ''A'' 0, Down ''B'' 10, Up ''A'' 15, Down ''C'' 20, Up ''C'' 18]"]
  by (simp add: features_eval)

section \<open>Round duration\<close>

lemma perf_counter_mono: "perf_counter c \<le> perf_counter (elapse n c)"
  by (simp add: perf_counter_def elapse_def divide_right_mono)

text \<open>
  C8. The round result built at the end of a round has \<open>duration = end_time - start_time\<close>,
  whatever the two readings. In \<^verbatim>\<open>main\<close> the readings are two successive readings of
  \<^verbatim>\<open>time.perf_counter\<close>, the second taken after the first, so the second is not below
  the first and the duration is non-negative.
\<close>

theorem round_duration:
  "duration (main_round i p s e evs) =
     end_time (main_round i p s e evs) - start_time (main_round i p s e evs) \<and>
   start_time (fst (main_round_timed i p n evs c)) = perf_counter c \<and>
   end_time (fst (main_round_timed i p n evs c)) = perf_counter (elapse n c) \<and>
   duration (fst (main_round_timed i p n evs c)) =
     end_time (fst (main_round_timed i p n evs c)) -
     start_time (fst (main_round_timed i p n evs c)) \<and>
   0 \<le> duration (fst (main_round_timed i p n evs c))"
  using perf_counter_mono [of c n]
  by (simp add: main_round_timed_def main_round_def Let_def split: prod.splits)

theorem round_duration_witness:
  "duration (fst (main_round_timed 1 ''the quick brown fox'' 3000000000
      [Down ''A'' 3, Up ''A'' 4] \<lparr>ticks = 2000000000\<rparr>)) = 3 \<and>
   start_time (fst (main_round_timed 1 ''the quick brown fox'' 3000000000
      [Down ''A'' 3, Up ''A'' 4] \<lparr>ticks = 2000000000\<rparr>)) = 2 \<and>
   end_time (fst (main_round_timed 1 ''the quick brown fox'' 3000000000
      [Down ''A'' 3, Up ''A'' 4] \<lparr>ticks = 2000000000\<rparr>)) = 5"
  using round_duration [of 1 "''the quick brown fox''" 2 5 "[Down ''A'' 3, Up ''A'' 4]"
      3000000000 "\<lparr>ticks = 2000000000\<rparr>"]
  by (simp add: perf_counter_def elapse_def)

section \<open>Summary statistics\<close>

lemma py_min_Min: "xs \<noteq> [] \<Longrightarrow> py_min xs = Inr (Min (set xs))"
  using Min.set_eq_fold [of "hd xs" "tl xs"] by (cases xs) (simp_all add: py_min_def)

lemma py_max_Max: "xs \<noteq> [] \<Longrightarrow> py_max xs = Inr (Max (set xs))"
  using Max.set_eq_fold [of "hd xs" "tl xs"] by (cases xs) (simp_all add: py_max_def)

lemma summarize_list_nonempty:
  "lst \<noteq> [] \<Longrightarrow> summarize_list lst =
     Inr [(''count'', JInt (int (length lst))),
          (''mean'', JFloat (sum_list lst / real (length lst))),
          (''stdev'',
             JFloat (if length lst > 1
                     then sqrt ((\<Sum>v\<leftarrow>lst. (v - sum_list lst / real (length lst))\<^sup>2)
                                / real (length lst))
                     else 0)),
          (''min'', JFloat (Min (set lst))), (''max'', JFloat (Max (set lst)))]"
  by (simp add: summarize_list_def py_mean_def py_pstdev_def py_min_Min py_max_Max Let_def)

lemma summarize_list_total: "\<exists>sm. summarize_list lst = Inr sm"
  by (cases "lst = []") (simp_all add: summarize_list_nonempty, simp add: summarize_list_def)

text \<open>
  C5. The summary of the empty sequence is \<open>{count: 0}\<close>; that of \<open>[x]\<close> is
  \<open>{count: 1, mean: x, stdev: 0.0, min: x, max: x}\<close>; for more than one value the
  \<open>stdev\<close> entry is the population standard deviation, the root of the mean squared
  deviation with divisor \<open>count\<close>; for at most one value the \<open>stdev\<close> entry, where the
  summary has one, is \<open>0.0\<close>. No case raises.
\<close>

theorem summarize_list_cases:
  "summarize_list [] = Inr [(''count'', JInt 0)] \<and>
   summarize_list [x] =
     Inr [(''count'', JInt 1), (''mean'', JFloat x), (''stdev'', JFloat 0),
          (''min'', JFloat x), (''max'', JFloat x)] \<and>
   (length lst > 1 \<longrightarrow>
      (\<exists>sm. summarize_list lst = Inr sm \<and>
         map_of sm ''count'' = Some (JInt (int (length lst))) \<and>
         map_of sm ''stdev'' =
           Some (JFloat (sqrt ((\<Sum>v\<leftarrow>lst. (v - sum_list lst / real (length lst))\<^sup>2)
                                 / real (length lst)))))) \<and>
   (length lst \<le> 1 \<longrightarrow>
      (\<exists>sm. summarize_list lst = Inr sm \<and>
         (\<forall>v. map_of sm ''stdev'' = Some v \<longrightarrow> v = JFloat 0)))"
proof (intro conjI impI)
  show "summarize_list [] = Inr [(''count'', JInt 0)]"
    by (simp add: summarize_list_def)
next
  show "summarize_list [x] =
     Inr [(''count'', JInt 1), (''mean'', JFloat x), (''stdev'', JFloat 0),
          (''min'', JFloat x), (''max'', JFloat x)]"
    by (simp add: summarize_list_nonempty)
next
  assume "length lst > 1"
  then have "lst \<noteq> []" by auto
  from summarize_list_nonempty [OF this] \<open>length lst > 1\<close>
  show "\<exists>sm. summarize_list lst = Inr sm \<and>
         map_of sm ''count'' = Some (JInt (int (length lst))) \<and>
         map_of sm ''stdev'' =
           Some (JFloat (sqrt ((\<Sum>v\<leftarrow>lst. (v - sum_list lst / real (length lst))\<^sup>2)
                                 / real (length lst))))"
    by simp
next
  assume le: "length lst \<le> 1"
  show "\<exists>sm. summarize_list lst = Inr sm \<and>
         (\<forall>v. map_of sm ''stdev'' = Some v \<longrightarrow> v = JFloat 0)"
  proof (cases "lst = []")
    case True
    then show ?thesis by (simp add: summarize_list_def)
  next
    case False
    from summarize_list_nonempty [OF this] le show ?thesis by simp
  qed
qed

text \<open>
  On \<open>[1, 3]\<close> the deviation is \<open>1\<close>, the population value; the sample formula
  (divisor \<open>count - 1\<close>) would give the root of \<open>2\<close>.
\<close>

theorem summarize_list_cases_witness:
  "length [1, 3 :: real] > 1 \<and>
   summarize_list [1, 3] =
     Inr [(''count'', JInt 2), (''mean'', JFloat 2), (''stdev'', JFloat 1),
          (''min'', JFloat 1), (''max'', JFloat 3)] \<and>
   length [7 :: real] \<le> 1 \<and>
   summarize_list [7] =
     Inr [(''count'', JInt 1), (''mean'', JFloat 7), (''stdev'', JFloat 0),
          (''min'', JFloat 7), (''max'', JFloat 7)]"
  using summarize_list_cases [of 7 "[1, 3]"] summarize_list_cases [of 7 "[7]"]
  by (simp add: summarize_list_def py_mean_def py_pstdev_def py_min_def py_max_def)

section \<open>The key anonymizer\<close>

lemma length_sha256_round: "length (sha256_round kw v) = length v"
  by (cases "(kw, v)" rule: sha256_round.cases) (simp_all add: Let_def)

lemma length_fold_sha256_round: "length (fold sha256_round kws v) = length v"
  by (induction kws arbitrary: v) (simp_all add: length_sha256_round)

lemma length_sha256_compress: "length (sha256_compress hs b) = length hs"
  by (simp add: sha256_compress_def length_fold_sha256_round)

lemma length_sha256_blocks: "length (sha256_blocks n hs bs) = length hs"
  by (induction n arbitrary: hs bs) (simp_all add: length_sha256_compress)

lemma length_sha256: "length (sha256 m) = 8"
  by (simp add: sha256_def Let_def length_sha256_blocks sha256_H0_def)

lemma length_concat_hex: "length (concat (map hex_word32 ws)) = 8 * length ws"
  by (induction ws) (simp_all add: hex_word32_def)

lemma length_sha256_hexdigest: "length (sha256_hexdigest s) = 64"
  by (simp add: sha256_hexdigest_def length_concat_hex length_sha256)

lemma hex_digit_in: "hex_digit n \<in> set ''0123456789abcdef''"
  unfolding hex_digit_def by (rule nth_mem) simp

lemma set_hex_word32: "set (hex_word32 w) \<subseteq> set ''0123456789abcdef''"
  unfolding hex_word32_def set_map using hex_digit_in by blast

lemma set_sha256_hexdigest: "set (sha256_hexdigest s) \<subseteq> set ''0123456789abcdef''"
  unfolding sha256_hexdigest_def set_concat set_map using set_hex_word32 by blast

text \<open>The padded message is a whole number of 64-byte blocks, all of which are hashed.\<close>

lemma length_sha256_pad_aux:
  "length (sha256_pad m) = length m + 9 + (119 - length m mod 64) mod 64"
  by (simp add: sha256_pad_def be_bytes64_def)

lemma pad_arith: "((n::nat) + 9 + (119 - n mod 64) mod 64) mod 64 = 0"
proof -
  define r where "r = n mod 64"
  define k where "k = (119 - r) mod 64"
  have r: "r < 64" by (simp add: r_def)
  have "k = (if r \<le> 55 then 55 - r else 119 - r)"
  proof (cases "r \<le> 55")
    case True
    then have "119 - r = 64 + (55 - r)" by simp
    then have "(119 - r) mod 64 = (55 - r) mod 64" by (metis mod_add_self1)
    with True show ?thesis by (simp add: k_def)
  next
    case False
    with r show ?thesis by (simp add: k_def)
  qed
  then have "r + 9 + k = 64 \<or> r + 9 + k = 128"
    using r by (auto split: if_splits)
  then have z: "(r + 9 + k) mod 64 = 0"
    by (elim disjE) (simp_all only:, simp_all)
  have "(n + (9 + k)) mod 64 = (n mod 64 + (9 + k)) mod 64"
    by (rule mod_add_left_eq [symmetric])
  with z show ?thesis
    by (simp add: r_def k_def add.assoc)
qed

lemma length_sha256_pad: "length (sha256_pad m) mod 64 = 0"
  by (simp only: length_sha256_pad_aux pad_arith)

text \<open>
  The digests of the two examples of the standard: \<open>abc\<close>, one block, and a 56-byte
  message, two blocks.
\<close>

lemma sha256_hexdigest_abc:
  "sha256_hexdigest (map of_char ''abc'') =
     ''ba7816bf8f01cfea414140de5dae2223b00361a396177a9cb410ff61f20015ad''"
  by code_simp

lemma sha256_hexdigest_two_blocks:
  "sha256_hexdigest
     (map of_char ''abcdbcdecdefdefgefghfghighijhijkijkljklmklmnlmnomnopnopq'') =
     ''248d6a61d20638b8e5c026930c3e6039a33ce45964ff2167f6ecedd419db06c1''"
  by code_simp

subsection \<open>Strings that can be encoded\<close>

lemma of_char_word_less: "(of_char c :: codepoint) < 0x100"
proof -
  have n: "(of_char c :: nat) < 256"
  proof -
    have "(of_char c :: nat) = of_char c mod 256" by simp
    also have "\<dots> < 256" by (rule mod_less_divisor) simp
    finally show ?thesis .
  qed
  have "unat (word_of_nat (of_char c) :: codepoint) = of_char c mod 4294967296"
    by (simp add: unat_of_nat)
  also have "\<dots> = of_char c"
    by (rule mod_less) (use n in linarith)
  finally have "unat (word_of_nat (of_char c) :: codepoint) < 256"
    using n by (simp only:)
  then have "unat (of_char c :: codepoint) < 256"
    by (simp only: of_nat_of_char)
  then show ?thesis
    by (simp add: word_less_nat_alt)
qed

lemma py_str_no_surrogate: "\<not> list_ex is_surrogate (py_str s)"
proof -
  have "\<not> is_surrogate (of_char c)" for c
  proof -
    have "(of_char c :: codepoint) < 0xD800"
      using of_char_word_less [of c] by (rule less_trans) simp
    then show ?thesis by (simp add: is_surrogate_def not_le)
  qed
  then show ?thesis
    by (simp add: py_str_def list_ex_iff)
qed

lemma hash_key_encodable:
  "\<lbrakk>anonymize self; \<not> list_ex is_surrogate (salt self); \<not> list_ex is_surrogate key_name\<rbrakk> \<Longrightarrow>
     hash_key self key_name =
       Inr (py_str (sha256_hexdigest
              (concat (map utf8_char (salt self @ py_str ''::'' @ key_name)))))"
  by (simp add: hash_key_def utf8_encode_def py_str_no_surrogate)

lemma hash_key_raises:
  "\<lbrakk>anonymize self; list_ex is_surrogate (salt self) \<or> list_ex is_surrogate key_name\<rbrakk> \<Longrightarrow>
     hash_key self key_name = Inl UnicodeEncodeError"
  by (auto simp add: hash_key_def utf8_encode_def py_str_no_surrogate)

subsection \<open>Identifiers of two sessions\<close>

text \<open>
  Two sessions with the salts \<open>0123\<dots>\<close> and \<open>fedc\<dots>\<close>: the identifiers of the labels
  \<open>a\<close> and \<open>b\<close>, and of a label of three code points that take two, three and four
  bytes in UTF-8.
\<close>

lemma hash_key_session1_a:
  "hash_key (init_capture (py_str ''0123456789abcdef0123456789abcdef'') True) (py_str ''a'') =
     Inr (py_str ''d482fd0f0f017df1441e443fa1bfa3a3a7612ec131fbf259666014d7acc87023'')"
  by code_simp

lemma hash_key_session1_b:
  "hash_key (init_capture (py_str ''0123456789abcdef0123456789abcdef'') True) (py_str ''b'') =
     Inr (py_str ''7fdf63d4fe90f14998bda6a814d417121a88088464add790d41111fc751aae28'')"
  by code_simp

lemma hash_key_session2_a:
  "hash_key (init_capture (py_str ''fedcba9876543210fedcba9876543210'') True) (py_str ''a'') =
     Inr (py_str ''07cdbfa4286feaed004d6cee9d36d993b59f86c8e31b314641db34c7ab3661e1'')"
  by code_simp

lemma hash_key_session1_utf8:
  "hash_key (init_capture (py_str ''0123456789abcdef0123456789abcdef'') True)
     [0xE9, 0x20AC, 0x1F600] =
     Inr (py_str ''91e51b708f5ed118e0ecf2ec10086c8df0d29725caa8a74e81557788933212be'')"
  by code_simp

lemma hash_key_session_differs:
  "hash_key (init_capture (py_str ''0123456789abcdef0123456789abcdef'') True) (py_str ''a'') \<noteq>
   hash_key (init_capture (py_str ''0123456789abcdef0123456789abcdef'') True) (py_str ''b'') \<and>
   hash_key (init_capture (py_str ''0123456789abcdef0123456789abcdef'') True) (py_str ''a'') \<noteq>
   hash_key (init_capture (py_str ''fedcba9876543210fedcba9876543210'') True) (py_str ''a'')"
  unfolding hash_key_session1_a hash_key_session1_b hash_key_session2_a
  by (simp add: py_str_def)

text \<open>
  C7, as amended. The identifier depends on the salt, the anonymization flag and the
  label alone. With anonymization off it is the label itself, for every label. With
  anonymization on, and no surrogate code point in salt or label, it is the SHA-256 digest
  of the UTF-8 encoding of \<open>salt + "::" + label\<close> in hexadecimal, 64 characters long; a
  surrogate code point in salt or label makes \<^verbatim>\<open>encode\<close> raise
  \<^verbatim>\<open>UnicodeEncodeError\<close>, and no identifier is returned. The identifiers of the two
  sessions above are the digests Python computes, and they differ with the label and
  with the salt.
\<close>

theorem hash_key_cases:
  "(\<not> anonymize self \<longrightarrow> hash_key self key_name = Inr key_name) \<and>
   (anonymize self \<and> \<not> list_ex is_surrogate (salt self) \<and> \<not> list_ex is_surrogate key_name \<longrightarrow>
      hash_key self key_name =
        Inr (py_str (sha256_hexdigest
               (concat (map utf8_char (salt self @ py_str ''::'' @ key_name))))) \<and>
      (\<exists>ident. hash_key self key_name = Inr (py_str ident) \<and> length ident = 64 \<and>
         set ident \<subseteq> set ''0123456789abcdef'')) \<and>
   (anonymize self \<and> (list_ex is_surrogate (salt self) \<or> list_ex is_surrogate key_name) \<longrightarrow>
      hash_key self key_name = Inl UnicodeEncodeError) \<and>
   (salt other = salt self \<and> anonymize other = anonymize self \<longrightarrow>
      hash_key other key_name = hash_key self key_name) \<and>
   hash_key (init_capture (py_str ''0123456789abcdef0123456789abcdef'') True) (py_str ''a'') =
     Inr (py_str ''d482fd0f0f017df1441e443fa1bfa3a3a7612ec131fbf259666014d7acc87023'') \<and>
   hash_key (init_capture (py_str ''0123456789abcdef0123456789abcdef'') True) (py_str ''b'') =
     Inr (py_str ''7fdf63d4fe90f14998bda6a814d417121a88088464add790d41111fc751aae28'') \<and>
   hash_key (init_capture (py_str ''fedcba9876543210fedcba9876543210'') True) (py_str ''a'') =
     Inr (py_str ''07cdbfa4286feaed004d6cee9d36d993b59f86c8e31b314641db34c7ab3661e1'') \<and>
   hash_key (init_capture (py_str ''0123456789abcdef0123456789abcdef'') True)
     [0xE9, 0x20AC, 0x1F600] =
     Inr (py_str ''91e51b708f5ed118e0ecf2ec10086c8df0d29725caa8a74e81557788933212be'') \<and>
   hash_key (init_capture (py_str ''0123456789abcdef0123456789abcdef'') True) (py_str ''a'') \<noteq>
   hash_key (init_capture (py_str ''0123456789abcdef0123456789abcdef'') True) (py_str ''b'') \<and>
   hash_key (init_capture (py_str ''0123456789abcdef0123456789abcdef'') True) (py_str ''a'') \<noteq>
   hash_key (init_capture (py_str ''fedcba9876543210fedcba9876543210'') True) (py_str ''a'')"
proof (intro conjI impI)
  show "hash_key self key_name = Inr key_name" if "\<not> anonymize self"
    using that by (simp add: hash_key_def)
next
  assume a: "anonymize self \<and> \<not> list_ex is_surrogate (salt self) \<and>
    \<not> list_ex is_surrogate key_name"
  let ?d = "sha256_hexdigest (concat (map utf8_char (salt self @ py_str ''::'' @ key_name)))"
  show eq: "hash_key self key_name = Inr (py_str ?d)"
    using a by (simp add: hash_key_encodable)
  have "length ?d = 64" "set ?d \<subseteq> set ''0123456789abcdef''"
    by (rule length_sha256_hexdigest, rule set_sha256_hexdigest)
  with eq show "\<exists>ident. hash_key self key_name = Inr (py_str ident) \<and> length ident = 64 \<and>
         set ident \<subseteq> set ''0123456789abcdef''"
    by blast
next
  assume "anonymize self \<and> (list_ex is_surrogate (salt self) \<or> list_ex is_surrogate key_name)"
  then show "hash_key self key_name = Inl UnicodeEncodeError"
    by (simp add: hash_key_raises)
next
  assume "salt other = salt self \<and> anonymize other = anonymize self"
  then show "hash_key other key_name = hash_key self key_name"
    by (simp add: hash_key_def)
qed (rule hash_key_session1_a hash_key_session1_b hash_key_session2_a hash_key_session1_utf8
      hash_key_session_differs [THEN conjunct1] hash_key_session_differs [THEN conjunct2])+

theorem hash_key_cases_witness:
  "anonymize (init_capture (py_str ''0123456789abcdef0123456789abcdef'') True) \<and>
   \<not> list_ex is_surrogate
       (salt (init_capture (py_str ''0123456789abcdef0123456789abcdef'') True)) \<and>
   \<not> list_ex is_surrogate (py_str ''a'') \<and>
   hash_key (init_capture (py_str ''0123456789abcdef0123456789abcdef'') True) (py_str ''a'') =
     Inr (py_str ''d482fd0f0f017df1441e443fa1bfa3a3a7612ec131fbf259666014d7acc87023'') \<and>
   length ''d482fd0f0f017df1441e443fa1bfa3a3a7612ec131fbf259666014d7acc87023'' = 64 \<and>
   \<not> anonymize (init_capture (py_str ''0123456789abcdef0123456789abcdef'') False) \<and>
   hash_key (init_capture (py_str ''0123456789abcdef0123456789abcdef'') False) (py_str ''a'') =
     Inr (py_str ''a'') \<and>
   list_ex is_surrogate [0xD800] \<and>
   hash_key (init_capture (py_str ''0123456789abcdef0123456789abcdef'') True) [0xD800] =
     Inl UnicodeEncodeError \<and>
   hash_key ((init_capture (py_str ''0123456789abcdef0123456789abcdef'') True)
               \<lparr>events := [Down ''x'' 1], down_timestamps := [(''x'', 1)]\<rparr>) (py_str ''a'') =
     hash_key (init_capture (py_str ''0123456789abcdef0123456789abcdef'') True) (py_str ''a'')"
  using
    hash_key_cases
      [of "init_capture (py_str ''0123456789abcdef0123456789abcdef'') True" "py_str ''a''"
          "(init_capture (py_str ''0123456789abcdef0123456789abcdef'') True)
             \<lparr>events := [Down ''x'' 1], down_timestamps := [(''x'', 1)]\<rparr>"]
    hash_key_cases
      [of "init_capture (py_str ''0123456789abcdef0123456789abcdef'') False" "py_str ''a''"
          "init_capture (py_str ''0123456789abcdef0123456789abcdef'') False"]
    hash_key_cases
      [of "init_capture (py_str ''0123456789abcdef0123456789abcdef'') True" "[0xD800]"
          "init_capture (py_str ''0123456789abcdef0123456789abcdef'') True"]
  by (simp add: init_capture_def py_str_no_surrogate is_surrogate_def)

text \<open>
  C7, as stated, fails: with anonymization on, a label that is one surrogate code point
  gets no identifier, the encoding raises.
\<close>

theorem hash_key_total_counterexample:
  "hash_key (init_capture (py_str ''0123456789abcdef0123456789abcdef'') True) [0xD800] =
     Inl UnicodeEncodeError \<and>
   \<not> (\<exists>ident. hash_key (init_capture (py_str ''0123456789abcdef0123456789abcdef'') True)
                  [0xD800] = Inr ident)"
  by (simp add: hash_key_def init_capture_def utf8_encode_def is_surrogate_def)

section \<open>The session aggregate\<close>

lemma fold_report_step_simple:
  "out_rounds (fold report_step rs s) = out_rounds s @ rs \<and>
   all_intervals (fold report_step rs s) = all_intervals s @ concat (map inter_key_intervals rs)"
  by (induction rs arbitrary: s) (simp_all add: report_step_def)

lemma map_of_defaultdict_extend:
  "map_of (defaultdict_extend k vs d) k' =
     (if k' = k then Some ((case map_of d k of None \<Rightarrow> [] | Some xs \<Rightarrow> xs) @ vs)
      else map_of d k')"
  by (simp add: defaultdict_extend_def map_of_map_default split: option.splits)

lemma filter_key_absent:
  "k \<notin> fst ` set items \<Longrightarrow> filter (\<lambda>(k', hs). k' = k) items = []"
  by (induction items) force+

lemma map_of_extend_items:
  "map_of (fold (\<lambda>(k, hs) d. defaultdict_extend k hs d) items d) k =
     (if k \<in> fst ` set items
      then Some ((case map_of d k of None \<Rightarrow> [] | Some xs \<Rightarrow> xs)
                 @ concat (map snd (filter (\<lambda>(k', hs). k' = k) items)))
      else map_of d k)"
proof (induction items arbitrary: d)
  case Nil
  then show ?case by simp
next
  case (Cons item items)
  obtain k0 hs0 where item: "item = (k0, hs0)" by (cases item)
  show ?case
    by (simp add: item Cons.IH map_of_defaultdict_extend filter_key_absent
          split: option.splits)
qed

lemma distinct_extend_items:
  "distinct (map fst d) \<Longrightarrow>
     distinct (map fst (fold (\<lambda>(k, hs) d. defaultdict_extend k hs d) items d))"
  by (induction items arbitrary: d)
     (auto simp: defaultdict_extend_def distinct_map_default)

lemma map_of_aggregate_key_holds:
  "map_of (aggregate_key_holds (fold report_step rs s)) k =
     (if k \<in> (\<Union>r \<in> set rs. fst ` set (key_hold_times r))
      then Some ((case map_of (aggregate_key_holds s) k of None \<Rightarrow> [] | Some xs \<Rightarrow> xs)
                 @ concat (map (key_holds k) rs))
      else map_of (aggregate_key_holds s) k)"
proof (induction rs arbitrary: s)
  case Nil
  then show ?case by simp
next
  case (Cons r rs)
  have step: "map_of (aggregate_key_holds (report_step r s)) k =
     (if k \<in> fst ` set (key_hold_times r)
      then Some ((case map_of (aggregate_key_holds s) k of None \<Rightarrow> [] | Some xs \<Rightarrow> xs)
                 @ key_holds k r)
      else map_of (aggregate_key_holds s) k)"
    by (simp add: report_step_def map_of_extend_items key_holds_def)
  have absent: "key_holds k r' = []" if "k \<notin> fst ` set (key_hold_times r')" for r'
    using that by (simp add: key_holds_def filter_key_absent)
  show ?case
    by (simp add: Cons.IH step absent split: option.splits)
qed

lemma distinct_aggregate_key_holds:
  "distinct (map fst (aggregate_key_holds s)) \<Longrightarrow>
     distinct (map fst (aggregate_key_holds (fold report_step rs s)))"
  by (induction rs arbitrary: s) (simp_all add: report_step_def distinct_extend_items)

lemma summarize_items_map_of:
  "distinct (map fst kvs) \<Longrightarrow>
     \<exists>res. summarize_items kvs acc = Inr res \<and>
       fst ` set res = fst ` set acc \<union> fst ` set kvs \<and>
       (distinct (map fst acc) \<longrightarrow> distinct (map fst res)) \<and>
       (\<forall>k. map_of res k =
          (case map_of kvs k of
             None \<Rightarrow> map_of acc k
           | Some v \<Rightarrow> (case summarize_list v of Inl e \<Rightarrow> None | Inr sm \<Rightarrow> Some sm)))"
proof (induction kvs arbitrary: acc)
  case Nil
  then show ?case by simp
next
  case (Cons kv kvs)
  obtain k v where kv: "kv = (k, v)" by (cases kv)
  obtain sm where sm: "summarize_list v = Inr sm"
    using summarize_list_total by blast
  from Cons.prems kv have d: "distinct (map fst kvs)" and nk: "k \<notin> fst ` set kvs"
    by auto
  from Cons.IH [OF d, of "AList.update k sm acc"]
  obtain res where res: "summarize_items kvs (AList.update k sm acc) = Inr res"
    "fst ` set res = fst ` set (AList.update k sm acc) \<union> fst ` set kvs"
    "distinct (map fst (AList.update k sm acc)) \<longrightarrow> distinct (map fst res)"
    "\<forall>k'. map_of res k' =
          (case map_of kvs k' of
             None \<Rightarrow> map_of (AList.update k sm acc) k'
           | Some v \<Rightarrow> (case summarize_list v of Inl e \<Rightarrow> None | Inr sm \<Rightarrow> Some sm))"
    by blast
  have nk': "map_of kvs k = None"
    using nk by (simp add: map_of_eq_None_iff)
  show ?case
  proof (intro exI conjI allI)
    show "summarize_items (kv # kvs) acc = Inr res"
      by (simp add: kv sm res(1))
    show "fst ` set res = fst ` set acc \<union> fst ` set (kv # kvs)"
      using res(2) by (auto simp: dom_update kv)
    show "distinct (map fst acc) \<longrightarrow> distinct (map fst res)"
      using res(3) by (simp add: distinct_update)
    fix k'
    show "map_of res k' =
          (case map_of (kv # kvs) k' of
             None \<Rightarrow> map_of acc k'
           | Some v \<Rightarrow> (case summarize_list v of Inl e \<Rightarrow> None | Inr sm \<Rightarrow> Some sm))"
      using res(4) nk' by (simp add: kv sm update_conv' split: option.splits)
  qed
qed


lemma make_json_report_metadata:
  "make_json_report rs md = Inr out \<Longrightarrow>
     make_json_report rs md' = Inr \<lparr>metadata = md', rounds = rounds out, aggregate = aggregate out\<rparr>"
  by (auto simp: make_json_report_def Let_def split: sum.splits)

lemma filter_key_dict:
  "distinct (map fst items) \<Longrightarrow>
     concat (map snd (filter (\<lambda>(k', hs). k' = k) items)) =
       (case map_of items k of None \<Rightarrow> [] | Some hs \<Rightarrow> hs)"
  by (induction items) (auto simp: filter_key_absent)

lemma key_holds_dict:
  "distinct (map fst (key_hold_times r)) \<Longrightarrow>
     key_holds k r = (case map_of (key_hold_times r) k of None \<Rightarrow> [] | Some hs \<Rightarrow> hs)"
  by (simp add: key_holds_def filter_key_dict)


text \<open>
  C6. The report is produced for every sequence of rounds (no case raises), and its
  aggregate is the summary of the concatenation of all rounds' intervals and, for each
  key that occurs in some round, the summary of the concatenation of that key's hold
  times over all rounds; the aggregate has exactly those keys, each once. The aggregate
  depends on the rounds alone: building the report again from the rounds it contains,
  with any metadata, gives the same aggregate.
\<close>

theorem aggregate_of_concatenation:
  "\<exists>out. make_json_report rs md = Inr out \<and>
     metadata out = md \<and> rounds out = rs \<and>
     summarize_list (concat (map inter_key_intervals rs)) =
       Inr (agg_inter_key_intervals (aggregate out)) \<and>
     fst ` set (agg_key_hold_times (aggregate out)) =
       (\<Union>r \<in> set rs. fst ` set (key_hold_times r)) \<and>
     distinct (map fst (agg_key_hold_times (aggregate out))) \<and>
     (\<forall>k \<in> (\<Union>r \<in> set rs. fst ` set (key_hold_times r)).
        \<exists>sm. map_of (agg_key_hold_times (aggregate out)) k = Some sm \<and>
             summarize_list (concat (map (key_holds k) rs)) = Inr sm) \<and>
     (\<forall>md'. \<exists>out'. make_json_report (rounds out) md' = Inr out' \<and>
        aggregate out' = aggregate out \<and> rounds out' = rounds out)"
proof -
  let ?s = "fold report_step rs report_init"
  have iv: "all_intervals ?s = concat (map inter_key_intervals rs)"
    and rd: "out_rounds ?s = rs"
    using fold_report_step_simple [of rs report_init] by simp_all
  obtain ik where ik: "summarize_list (all_intervals ?s) = Inr ik"
    using summarize_list_total by blast
  have dist: "distinct (map fst (aggregate_key_holds ?s))"
    by (rule distinct_aggregate_key_holds) simp
  from summarize_items_map_of [OF dist, of "[]"]
  obtain kh where kh: "summarize_items (aggregate_key_holds ?s) [] = Inr kh"
    "fst ` set kh = fst ` set (aggregate_key_holds ?s)"
    "distinct (map fst kh)"
    "\<forall>k. map_of kh k =
          (case map_of (aggregate_key_holds ?s) k of
             None \<Rightarrow> map_of [] k
           | Some v \<Rightarrow> (case summarize_list v of Inl e \<Rightarrow> None | Inr sm \<Rightarrow> Some sm))"
    by auto
  let ?out = "\<lparr>metadata = md, rounds = rs,
               aggregate = \<lparr>agg_inter_key_intervals = ik, agg_key_hold_times = kh\<rparr>\<rparr>"
  have out: "make_json_report rs md = Inr ?out"
    by (simp add: make_json_report_def Let_def ik kh(1) rd)
  have agg: "map_of (aggregate_key_holds ?s) k =
      (if k \<in> (\<Union>r \<in> set rs. fst ` set (key_hold_times r))
       then Some (concat (map (key_holds k) rs)) else None)" for k
    using map_of_aggregate_key_holds [of rs report_init k] by simp
  have keys: "fst ` set (aggregate_key_holds ?s) = (\<Union>r \<in> set rs. fst ` set (key_hold_times r))"
  proof -
    have "dom (map_of (aggregate_key_holds ?s)) = (\<Union>r \<in> set rs. fst ` set (key_hold_times r))"
      by (auto simp: agg dom_def split: if_splits)
    then show ?thesis by (simp add: dom_map_of_conv_image_fst)
  qed
  have each: "\<exists>sm. map_of kh k = Some sm \<and> summarize_list (concat (map (key_holds k) rs)) = Inr sm"
    if "k \<in> (\<Union>r \<in> set rs. fst ` set (key_hold_times r))" for k
  proof -
    obtain sm where sm: "summarize_list (concat (map (key_holds k) rs)) = Inr sm"
      using summarize_list_total by blast
    have "map_of kh k = Some sm"
      using kh(4) that by (simp add: agg sm)
    with sm show ?thesis by blast
  qed
  have meta: "\<exists>out'. make_json_report (rounds ?out) md' = Inr out' \<and>
        aggregate out' = aggregate ?out \<and> rounds out' = rounds ?out" for md'
    using make_json_report_metadata [OF out, of md'] by simp
  show ?thesis
  proof (intro exI [of _ ?out] conjI)
    show "make_json_report rs md = Inr ?out" by (rule out)
    show "summarize_list (concat (map inter_key_intervals rs)) =
       Inr (agg_inter_key_intervals (aggregate ?out))"
      using ik iv by simp
    show "fst ` set (agg_key_hold_times (aggregate ?out)) =
       (\<Union>r \<in> set rs. fst ` set (key_hold_times r))"
      using kh(2) keys by simp
    show "distinct (map fst (agg_key_hold_times (aggregate ?out)))"
      using kh(3) by simp
    show "\<forall>k \<in> (\<Union>r \<in> set rs. fst ` set (key_hold_times r)).
        \<exists>sm. map_of (agg_key_hold_times (aggregate ?out)) k = Some sm \<and>
             summarize_list (concat (map (key_holds k) rs)) = Inr sm"
      using each by simp
    show "\<forall>md'. \<exists>out'. make_json_report (rounds ?out) md' = Inr out' \<and>
        aggregate out' = aggregate ?out \<and> rounds out' = rounds ?out"
      using meta by blast
  qed simp_all
qed

theorem aggregate_of_concatenation_witness:
  "''A'' \<in> (\<Union>r \<in> set
      [\<lparr>round_index = 1, phrase = ''ab'', start_time = 0, end_time = 10, duration = 10,
        inter_key_intervals = [1], key_hold_times = [(''A'', [1]), (''B'', [5])]\<rparr>,
       \<lparr>round_index = 2, phrase = ''ab'', start_time = 20, end_time = 30, duration = 10,
        inter_key_intervals = [3], key_hold_times = [(''A'', [3])]\<rparr>].
      fst ` set (key_hold_times r)) \<and>
   make_json_report
      [\<lparr>round_index = 1, phrase = ''ab'', start_time = 0, end_time = 10, duration = 10,
        inter_key_intervals = [1], key_hold_times = [(''A'', [1]), (''B'', [5])]\<rparr>,
       \<lparr>round_index = 2, phrase = ''ab'', start_time = 20, end_time = 30, duration = 10,
        inter_key_intervals = [3], key_hold_times = [(''A'', [3])]\<rparr>] () =
     Inr \<lparr>metadata = (),
          rounds =
            [\<lparr>round_index = 1, phrase = ''ab'', start_time = 0, end_time = 10, duration = 10,
              inter_key_intervals = [1], key_hold_times = [(''A'', [1]), (''B'', [5])]\<rparr>,
             \<lparr>round_index = 2, phrase = ''ab'', start_time = 20, end_time = 30, duration = 10,
              inter_key_intervals = [3], key_hold_times = [(''A'', [3])]\<rparr>],
          aggregate =
            \<lparr>agg_inter_key_intervals =
               [(''count'', JInt 2), (''mean'', JFloat 2), (''stdev'', JFloat 1),
                (''min'', JFloat 1), (''max'', JFloat 3)],
             agg_key_hold_times =
               [(''A'', [(''count'', JInt 2), (''mean'', JFloat 2), (''stdev'', JFloat 1),
                        (''min'', JFloat 1), (''max'', JFloat 3)]),
                (''B'', [(''count'', JInt 1), (''mean'', JFloat 5), (''stdev'', JFloat 0),
                        (''min'', JFloat 5), (''max'', JFloat 5)])]\<rparr>\<rparr> \<and>
   summarize_list (concat (map (key_holds ''A'')
      [\<lparr>round_index = 1, phrase = ''ab'', start_time = 0, end_time = 10, duration = 10,
        inter_key_intervals = [1], key_hold_times = [(''A'', [1]), (''B'', [5])]\<rparr>,
       \<lparr>round_index = 2, phrase = ''ab'', start_time = 20, end_time = 30, duration = 10,
        inter_key_intervals = [3], key_hold_times = [(''A'', [3])]\<rparr>])) =
     Inr [(''count'', JInt 2), (''mean'', JFloat 2), (''stdev'', JFloat 1),
          (''min'', JFloat 1), (''max'', JFloat 3)]"
  using aggregate_of_concatenation
    [of "[\<lparr>round_index = 1, phrase = ''ab'', start_time = 0, end_time = 10, duration = 10,
           inter_key_intervals = [1], key_hold_times = [(''A'', [1]), (''B'', [5])]\<rparr>,
          \<lparr>round_index = 2, phrase = ''ab'', start_time = 20, end_time = 30, duration = 10,
           inter_key_intervals = [3], key_hold_times = [(''A'', [3])]\<rparr>]" "()"]
  by (simp add: make_json_report_def report_step_def defaultdict_extend_def key_holds_def
        summarize_list_def py_mean_def py_pstdev_def py_min_def py_max_def)

end
